theory Spec2Isabelle
  imports Main
begin

section \<open>The custom FFT evaluator of examples/dispatch/fft.cpp\<close>

text \<open>
  The example defines a backend class \<open>Fft_1024\<close> (a scale factor, two skeleton
  transforms and two layout queries) and an \<open>Evaluator\<close> specialisation that offers
  this backend to the dispatcher for domains of size 1024. The embedding below follows
  the file top to bottom.

  Conventions of the embedding.
  \<^item> \<open>float\<close> is a type parameter \<open>'f\<close> of class \<open>times\<close>: a type with a
    multiplication about which nothing is assumed. Every theorem therefore holds for
    whatever the machine's single-precision product is.
  \<^item> \<open>index_type\<close> and \<open>length_type\<close> (unsigned) are \<open>nat\<close>, \<open>stride_type\<close>
    (signed) is \<open>int\<close>, a pointer is an \<open>int\<close> address counted in elements. The
    typedefs live in a header of the library; an access that stays inside an allocated
    buffer has an offset below the size of that buffer, so the products \<open>i * stride\<close>
    that matter are exact.
  \<^item> Memory is a partial map from addresses to elements. Dereferencing an address
    that is not allocated is undefined in C++; here it is the error \<open>Out_of_bounds\<close>.
  \<^item> The state also records every element access in order (\<open>accesses\<close>) and the
    lines written to \<open>std::cout\<close>.
\<close>

subsection \<open>Data\<close>

text \<open>\<open>std::complex<float>\<close>: a real and an imaginary part.\<close>

record 'f cplx =
  re :: 'f
  im :: 'f

text \<open>
  \<open>complex<float> * float\<close> of the standard library scales both parts.
\<close>

definition cmul :: "('f::times) cplx \<Rightarrow> 'f \<Rightarrow> 'f cplx" where
  "cmul z s = \<lparr>re = re z * s, im = im z * s\<rparr>"

text \<open>
  Modelled from the spec: \<open>Domain<1>\<close> is declared in vsip/domain.hpp, which is not
  part of the example. The example only asks a domain for its \<open>size()\<close>, the requested
  length of the transform.
\<close>

record Domain_1 =
  dom_size :: nat

text \<open>
  Modelled from the spec: the enumerations \<open>pack_type\<close> and
  \<open>storage_format_type\<close> and the struct \<open>Rt_layout<1>\<close> are declared in
  vsip_csl/dda.hpp, which is not part of the example. The layout descriptor of the spec
  has a packing (dense or strided) and a storage format (interleaved or split complex).
  The functions on layouts below are defined on the record scheme, so that a layout may
  have any further fields.
\<close>

datatype pack_type = dense | strided

datatype storage_format_type = interleaved_complex | split_complex

record Rt_layout =
  packing :: pack_type
  storage_format :: storage_format_type

text \<open>
  The class \<open>Fft_1024\<close>: its only data member is the scale factor \<^verbatim>\<open>scale_\<close>
  (\<open>scale_m\<close> here: a name cannot end with an underscore).
\<close>

record 'f Fft_1024 =
  scale_m :: 'f

text \<open>
  Objects behind a \<open>Fft_backend\<close> pointer. \<open>Fft_1024_obj\<close> is the class of the
  example.

  Modelled from the spec: \<open>System_fft_obj\<close> stands for the backend built by the
  generic candidate of the library (not part of the example), for a length and a scale.
\<close>

datatype 'f Fft_backend = Fft_1024_obj "'f Fft_1024" | System_fft_obj nat 'f

text \<open>\<open>std::auto_ptr\<close>: the address of an object on the object heap.\<close>

datatype auto_ptr = Auto_ptr nat

datatype access = Rd int | Wr int

datatype error = Out_of_bounds int

record 'f state =
  mem :: "int \<rightharpoonup> 'f cplx"
  accesses :: "access list"
  objs :: "'f Fft_backend list"
  cout :: "string list"

subsection \<open>The backend class\<close>

text \<open>The constructor stores the scale and prints a line; the domain is unused.\<close>

definition Fft_1024_init :: "Domain_1 \<Rightarrow> 'f \<Rightarrow> 'f state \<Rightarrow> 'f Fft_1024 \<times> 'f state" where
  "Fft_1024_init dm scale s =
     (\<lparr>scale_m = scale\<rparr>,
      s\<lparr>cout := cout s @ [''examples::Fft_1024 constructor called'']\<rparr>)"

text \<open>Reading and writing one element through a pointer.\<close>

definition load :: "int \<Rightarrow> 'f state \<Rightarrow> error + ('f cplx \<times> 'f state)" where
  "load a s =
     (case mem s a of
        None \<Rightarrow> Inl (Out_of_bounds a)
      | Some v \<Rightarrow> Inr (v, s\<lparr>accesses := accesses s @ [Rd a]\<rparr>))"

definition store :: "int \<Rightarrow> 'f cplx \<Rightarrow> 'f state \<Rightarrow> error + 'f state" where
  "store a v s =
     (case mem s a of
        None \<Rightarrow> Inl (Out_of_bounds a)
      | Some _ \<Rightarrow> Inr (s\<lparr>mem := (mem s)(a \<mapsto> v), accesses := accesses s @ [Wr a]\<rparr>))"

text \<open>
  The loop of \<open>in_place\<close>, from index \<open>i\<close> on:
  \<^verbatim>\<open>for (index_type i = 0; i < length; i++) data[i * stride] = data[i * stride] * scale_;\<close>
\<close>

function in_place_loop ::
  "('f::times) Fft_1024 \<Rightarrow> int \<Rightarrow> int \<Rightarrow> nat \<Rightarrow> nat \<Rightarrow> 'f state \<Rightarrow> error + 'f state" where
  "in_place_loop this data stride len i s =
     (if i < len then
        (case load (data + int i * stride) s of
           Inl e \<Rightarrow> Inl e
         | Inr (v, s1) \<Rightarrow>
             (case store (data + int i * stride) (cmul v (scale_m this)) s1 of
                Inl e \<Rightarrow> Inl e
              | Inr s2 \<Rightarrow> in_place_loop this data stride len (Suc i) s2))
      else Inr s)"
  by pat_completeness auto
termination
  by (relation "measure (\<lambda>(this, data, stride, len, i, s). len - i)") auto

declare in_place_loop.simps [simp del]

definition in_place ::
  "('f::times) Fft_1024 \<Rightarrow> int \<Rightarrow> int \<Rightarrow> nat \<Rightarrow> 'f state \<Rightarrow> error + 'f state" where
  "in_place this data stride len s =
     (case in_place_loop this data stride len 0 s of
        Inl e \<Rightarrow> Inl e
      | Inr s' \<Rightarrow> Inr (s'\<lparr>cout := cout s' @ [''examples::Fft_1024::in_place called'']\<rparr>))"

text \<open>
  The loop of \<open>out_of_place\<close>:
  \<^verbatim>\<open>for (index_type i = 0; i < length; i++)
    data_out[i * stride_out] = data_in[i * stride_in] * scale_;\<close>
\<close>

function out_of_place_loop ::
  "('f::times) Fft_1024 \<Rightarrow> int \<Rightarrow> int \<Rightarrow> int \<Rightarrow> int \<Rightarrow> nat \<Rightarrow> nat \<Rightarrow> 'f state
     \<Rightarrow> error + 'f state" where
  "out_of_place_loop this data_in stride_in data_out stride_out len i s =
     (if i < len then
        (case load (data_in + int i * stride_in) s of
           Inl e \<Rightarrow> Inl e
         | Inr (v, s1) \<Rightarrow>
             (case store (data_out + int i * stride_out) (cmul v (scale_m this)) s1 of
                Inl e \<Rightarrow> Inl e
              | Inr s2 \<Rightarrow>
                  out_of_place_loop this data_in stride_in data_out stride_out len (Suc i) s2))
      else Inr s)"
  by pat_completeness auto
termination
  by (relation
      "measure (\<lambda>(this, data_in, stride_in, data_out, stride_out, len, i, s). len - i)") auto

declare out_of_place_loop.simps [simp del]

definition out_of_place ::
  "('f::times) Fft_1024 \<Rightarrow> int \<Rightarrow> int \<Rightarrow> int \<Rightarrow> int \<Rightarrow> nat \<Rightarrow> 'f state \<Rightarrow> error + 'f state" where
  "out_of_place this data_in stride_in data_out stride_out len s =
     (case out_of_place_loop this data_in stride_in data_out stride_out len 0 s of
        Inl e \<Rightarrow> Inl e
      | Inr s' \<Rightarrow> Inr (s'\<lparr>cout := cout s' @ [''examples::Fft_1024::out_of_place called'']\<rparr>))"

text \<open>The layout query for in-place data: two assignments to the layout.\<close>

definition query_layout :: "'a Rt_layout_scheme \<Rightarrow> 'a Rt_layout_scheme" where
  "query_layout rtl_inout =
     (let r1 = rtl_inout\<lparr>packing := dense\<rparr>
      in r1\<lparr>storage_format := interleaved_complex\<rparr>)"

text \<open>
  The layout query for out-of-place data. Each statement is a chained assignment:
  the right one is done first and its value is assigned to the left one.
\<close>

definition query_layout_2 ::
  "'a Rt_layout_scheme \<Rightarrow> 'b Rt_layout_scheme \<Rightarrow> 'a Rt_layout_scheme \<times> 'b Rt_layout_scheme" where
  "query_layout_2 rtl_in rtl_out =
     (let out1 = rtl_out\<lparr>packing := dense\<rparr>;
          in1 = rtl_in\<lparr>packing := packing out1\<rparr>;
          out2 = out1\<lparr>storage_format := interleaved_complex\<rparr>;
          in2 = in1\<lparr>storage_format := storage_format out2\<rparr>
      in (in2, out2))"

subsection \<open>The evaluator\<close>

text \<open>
  The specialisation is a template in \<open>N\<close>: it is registered for the operations
  \<open>op::fft<1, complex<float>, complex<float>, fft_fwd, by_reference, N>\<close>, one for
  each \<open>N\<close>, with backend tag \<open>be::user\<close>.
\<close>

definition ct_valid :: "nat \<Rightarrow> bool" where
  "ct_valid N = True"

definition rt_valid :: "Domain_1 \<Rightarrow> 'f \<Rightarrow> bool" where
  "rt_valid dm scale = (dom_size dm = 1024)"

text \<open>\<open>new\<close>: the object is put at the next free address of the object heap.\<close>

definition new_obj :: "'f Fft_backend \<Rightarrow> 'f state \<Rightarrow> nat \<times> 'f state" where
  "new_obj b s = (length (objs s), s\<lparr>objs := objs s @ [b]\<rparr>)"

definition exec :: "Domain_1 \<Rightarrow> 'f \<Rightarrow> 'f state \<Rightarrow> auto_ptr \<times> 'f state" where
  "exec dm scale s =
     (let (this, s1) = Fft_1024_init dm scale s;
          (p, s2) = new_obj (Fft_1024_obj this) s1
      in (Auto_ptr p, s2))"

subsection \<open>The dispatcher\<close>

text \<open>
  Modelled from the spec: the operation tag, the candidate registry, the dispatcher and
  the \<open>Fft\<close> facade belong to the library and are not part of the example. The
  definitions of this subsection follow sections 3 and 4 of the specification.

  An operation signature has a dimensionality, the element types of input and output, a
  direction, a call style and a size parameter; the example names the signature
  \<open>op::fft<1, complex<float>, complex<float>, fft_fwd, by_reference, N>\<close>.
\<close>

datatype elem_type = float_elem | complex_float_elem

datatype direction = fft_fwd | fft_inv

datatype call_style = in_place_call | by_reference | by_value

record op_fft =
  op_dim :: nat
  op_input :: elem_type
  op_output :: elem_type
  op_direction :: direction
  op_style :: call_style
  op_N :: nat

text \<open>
  Modelled from the spec: a candidate has a signature pattern, a static validity (a
  function of the signature), a runtime validity (a function of the construction
  arguments) and a construction function.
\<close>

record ('sg, 'args, 'st, 'b) candidate =
  pattern :: "'sg \<Rightarrow> bool"
  static_valid :: "'sg \<Rightarrow> bool"
  runtime_valid :: "'args \<Rightarrow> bool"
  construct :: "'args \<Rightarrow> 'st \<Rightarrow> 'b \<times> 'st"

datatype ('sg, 'args) dispatch_error = NoMatchingBackend 'sg 'args

text \<open>
  Modelled from the spec: the candidates whose pattern matches the signature, in
  registration order.
\<close>

definition candidates_for ::
  "('sg, 'args, 'st, 'b) candidate list \<Rightarrow> 'sg \<Rightarrow> ('sg, 'args, 'st, 'b) candidate list" where
  "candidates_for reg sg = filter (\<lambda>c. pattern c sg) reg"

text \<open>
  Modelled from the spec: the candidates are tried in order. One that is not statically
  valid is skipped without asking its runtime validity; the first one that is valid at
  runtime constructs the backend and ends the search; when none is left the dispatch
  fails.
\<close>

fun select_from ::
  "('sg, 'args, 'st, 'b) candidate list \<Rightarrow> 'sg \<Rightarrow> 'args \<Rightarrow> 'st
     \<Rightarrow> ('sg, 'args) dispatch_error + ('b \<times> 'st)" where
  "select_from [] sg args st = Inl (NoMatchingBackend sg args)"
| "select_from (c # cs) sg args st =
     (if \<not> static_valid c sg then select_from cs sg args st
      else if runtime_valid c args then Inr (construct c args st)
      else select_from cs sg args st)"

definition select ::
  "('sg, 'args, 'st, 'b) candidate list \<Rightarrow> 'sg \<Rightarrow> 'args \<Rightarrow> 'st
     \<Rightarrow> ('sg, 'args) dispatch_error + ('b \<times> 'st)" where
  "select reg sg args st = select_from (candidates_for reg sg) sg args st"

text \<open>
  The candidate that the \<open>Evaluator\<close> specialisation of the example registers: its
  pattern is the template argument list of the specialisation, its three other parts
  are \<open>ct_valid\<close>, \<open>rt_valid\<close> and \<open>exec\<close>.
\<close>

definition user_pattern :: "op_fft \<Rightarrow> bool" where
  "user_pattern sg \<longleftrightarrow>
     op_dim sg = 1 \<and> op_input sg = complex_float_elem \<and> op_output sg = complex_float_elem
     \<and> op_direction sg = fft_fwd \<and> op_style sg = by_reference"

definition user_candidate ::
  "(op_fft, Domain_1 \<times> 'f, 'f state, auto_ptr) candidate" where
  "user_candidate =
     \<lparr>pattern = user_pattern,
      static_valid = (\<lambda>sg. ct_valid (op_N sg)),
      runtime_valid = (\<lambda>(dm, scale). rt_valid dm scale),
      construct = (\<lambda>(dm, scale). exec dm scale)\<rparr>"

text \<open>
  Modelled from the spec: the generic candidate of the library is statically valid
  always and valid at runtime always, and constructs the system backend.
\<close>

definition generic_exec :: "Domain_1 \<Rightarrow> 'f \<Rightarrow> 'f state \<Rightarrow> auto_ptr \<times> 'f state" where
  "generic_exec dm scale s =
     (let (p, s1) = new_obj (System_fft_obj (dom_size dm) scale) s in (Auto_ptr p, s1))"

definition generic_candidate ::
  "(op_fft, Domain_1 \<times> 'f, 'f state, auto_ptr) candidate" where
  "generic_candidate =
     \<lparr>pattern = (\<lambda>sg. True),
      static_valid = (\<lambda>sg. True),
      runtime_valid = (\<lambda>args. True),
      construct = (\<lambda>(dm, scale). generic_exec dm scale)\<rparr>"

text \<open>
  Modelled from the spec: the registry of scenario A, the specialised candidate
  registered first.
\<close>

definition registry ::
  "(op_fft, Domain_1 \<times> 'f, 'f state, auto_ptr) candidate list" where
  "registry = [user_candidate, generic_candidate]"

text \<open>
  The signature of \<open>fft_type\<close> in \<open>main\<close>, and (modelled from the spec) the
  construction of the facade: one dispatch with the arguments of the constructor.
\<close>

definition fft_type_sig :: "nat \<Rightarrow> op_fft" where
  "fft_type_sig N =
     \<lparr>op_dim = 1, op_input = complex_float_elem, op_output = complex_float_elem,
      op_direction = fft_fwd, op_style = by_reference, op_N = N\<rparr>"

definition Fft_create ::
  "nat \<Rightarrow> Domain_1 \<Rightarrow> 'f \<Rightarrow> 'f state
     \<Rightarrow> (op_fft, Domain_1 \<times> 'f) dispatch_error + (auto_ptr \<times> 'f state)" where
  "Fft_create N dm scale s = select registry (fft_type_sig N) (dm, scale) s"

subsection \<open>Buffers\<close>

text \<open>
  A buffer of \<open>n\<close> elements at address \<open>p\<close>: all its cells are allocated. The accesses
  \<open>data[i * stride]\<close>, \<open>i < len\<close>, are in bounds of a buffer of \<open>n\<close> elements when
  every offset is an index of the buffer. Two buffers do not overlap when one ends
  before the other begins.
\<close>

definition buffer_at :: "'f state \<Rightarrow> int \<Rightarrow> nat \<Rightarrow> bool" where
  "buffer_at s p n \<longleftrightarrow> (\<forall>k<n. mem s (p + int k) \<noteq> None)"

definition in_bounds :: "int \<Rightarrow> nat \<Rightarrow> nat \<Rightarrow> bool" where
  "in_bounds stride len n \<longleftrightarrow> (\<forall>i<len. 0 \<le> int i * stride \<and> int i * stride < int n)"

definition non_overlapping :: "int \<Rightarrow> nat \<Rightarrow> int \<Rightarrow> nat \<Rightarrow> bool" where
  "non_overlapping p n q m \<longleftrightarrow> p + int n \<le> q \<or> q + int m \<le> p"

text \<open>The address an access refers to.\<close>

fun addr_of :: "access \<Rightarrow> int" where
  "addr_of (Rd a) = a"
| "addr_of (Wr a) = a"

subsection \<open>Concrete states\<close>

text \<open>
  Three states over \<open>int\<close> in place of \<open>float\<close>, on which the theorems below are
  instantiated: a memory with a buffer of three elements at address 0 and a buffer of two
  elements at address 3; a memory with 1024 elements of value 1 at address 0; and a
  state with no memory at all.
\<close>

definition example_state :: "int state" where
  "example_state =
     \<lparr>mem = [0 \<mapsto> \<lparr>re = 2, im = 3\<rparr>, 1 \<mapsto> \<lparr>re = 4, im = 5\<rparr>, 2 \<mapsto> \<lparr>re = 6, im = 7\<rparr>,
             3 \<mapsto> \<lparr>re = 0, im = 0\<rparr>, 4 \<mapsto> \<lparr>re = 0, im = 0\<rparr>],
      accesses = [], objs = [], cout = []\<rparr>"

definition unit_state :: "int state" where
  "unit_state =
     \<lparr>mem = (\<lambda>a. if 0 \<le> a \<and> a < 1024 then Some \<lparr>re = 1, im = 0\<rparr> else None),
      accesses = [], objs = [], cout = []\<rparr>"

definition empty_state :: "int state" where
  "empty_state = \<lparr>mem = Map.empty, accesses = [], objs = [], cout = []\<rparr>"

section \<open>Properties\<close>

subsection \<open>Validity of the specialised candidate\<close>

text \<open>
  C1. The static validity of the specialised evaluator is true for every \<open>N\<close> it is
  registered for. Its runtime validity holds exactly for the domains of size 1024, and
  the scale argument does not influence it.
\<close>

theorem C1_validity:
  "ct_valid N
   \<and> rt_valid dm (scale :: 'f) = (dom_size dm = 1024)
   \<and> rt_valid dm (scale :: 'f) = rt_valid dm (scale' :: 'f)"
  by (simp add: ct_valid_def rt_valid_def)

subsection \<open>Layout negotiation\<close>

lemma query_layout_fields:
  "packing (query_layout r) = dense"
  "storage_format (query_layout r) = interleaved_complex"
  "Rt_layout.more (query_layout r) = Rt_layout.more r"
  by (simp_all add: query_layout_def)

lemma query_layout_2_fields:
  "packing (fst (query_layout_2 r_in r_out)) = dense"
  "storage_format (fst (query_layout_2 r_in r_out)) = interleaved_complex"
  "Rt_layout.more (fst (query_layout_2 r_in r_out)) = Rt_layout.more r_in"
  "packing (snd (query_layout_2 r_in r_out)) = dense"
  "storage_format (snd (query_layout_2 r_in r_out)) = interleaved_complex"
  "Rt_layout.more (snd (query_layout_2 r_in r_out)) = Rt_layout.more r_out"
  by (simp_all add: query_layout_2_def)

text \<open>
  C6. Layout negotiation is idempotent: querying the layout that a query returned
  gives that layout again, for the one-buffer and for the two-buffer form.
\<close>

theorem C6_query_layout_idempotent:
  "query_layout (query_layout r) = query_layout r
   \<and> query_layout_2 (fst (query_layout_2 r_in r_out)) (snd (query_layout_2 r_in r_out))
       = query_layout_2 r_in r_out"
  by (simp add: query_layout_def query_layout_2_def)

text \<open>
  C9. A layout query sets the packing to dense and the storage format to interleaved
  complex and leaves every other field of the layout as it was, in the one-buffer and in
  the two-buffer form. Hence the negotiated packing and storage format are the same for
  any two proposals.
\<close>

theorem C9_query_layout_result:
  "packing (query_layout r) = dense
   \<and> storage_format (query_layout r) = interleaved_complex
   \<and> Rt_layout.more (query_layout r) = Rt_layout.more r
   \<and> packing (fst (query_layout_2 r_in r_out)) = dense
   \<and> storage_format (fst (query_layout_2 r_in r_out)) = interleaved_complex
   \<and> Rt_layout.more (fst (query_layout_2 r_in r_out)) = Rt_layout.more r_in
   \<and> packing (snd (query_layout_2 r_in r_out)) = dense
   \<and> storage_format (snd (query_layout_2 r_in r_out)) = interleaved_complex
   \<and> Rt_layout.more (snd (query_layout_2 r_in r_out)) = Rt_layout.more r_out
   \<and> packing (query_layout r) = packing (query_layout r')
   \<and> storage_format (query_layout r) = storage_format (query_layout r')
   \<and> packing (fst (query_layout_2 r_in r_out)) = packing (fst (query_layout_2 r_in' r_out'))
   \<and> storage_format (fst (query_layout_2 r_in r_out))
       = storage_format (fst (query_layout_2 r_in' r_out'))
   \<and> packing (snd (query_layout_2 r_in r_out)) = packing (snd (query_layout_2 r_in' r_out'))
   \<and> storage_format (snd (query_layout_2 r_in r_out))
       = storage_format (snd (query_layout_2 r_in' r_out'))"
  by (simp add: query_layout_fields query_layout_2_fields)

subsection \<open>The loops of the transforms\<close>

lemma load_Some: "mem s a = Some v \<Longrightarrow> load a s = Inr (v, s\<lparr>accesses := accesses s @ [Rd a]\<rparr>)"
  by (simp add: load_def)

lemma store_Some:
  "mem s a = Some w \<Longrightarrow>
   store a v s = Inr (s\<lparr>mem := (mem s)(a \<mapsto> v), accesses := accesses s @ [Wr a]\<rparr>)"
  by (simp add: store_def)

lemma in_place_step:
  assumes "i < len" and "mem s (data + int i * stride) = Some v"
  shows "in_place_loop this data stride len i s =
         in_place_loop this data stride len (Suc i)
           (s\<lparr>mem := (mem s)(data + int i * stride \<mapsto> cmul v (scale_m this)),
              accesses := accesses s @ [Rd (data + int i * stride), Wr (data + int i * stride)]\<rparr>)"
  using assms by (subst in_place_loop.simps) (simp add: load_Some store_Some)

lemma in_place_loop_run:
  assumes "stride \<noteq> 0"
    and "\<forall>j. i \<le> j \<and> j < len \<longrightarrow> mem s (data + int j * stride) \<noteq> None"
  shows "in_place_loop this data stride len i s =
         Inr (s\<lparr>mem := (\<lambda>a. if \<exists>j. i \<le> j \<and> j < len \<and> a = data + int j * stride
                            then map_option (\<lambda>v. cmul v (scale_m this)) (mem s a)
                            else mem s a),
                accesses := accesses s @
                  concat (map (\<lambda>j. [Rd (data + int j * stride), Wr (data + int j * stride)])
                    [i..<len])\<rparr>)"
  using assms(2)
proof (induction "len - i" arbitrary: i s)
  case 0
  then have ge: "\<not> i < len" by simp
  then have "(\<lambda>a. if \<exists>j. i \<le> j \<and> j < len \<and> a = data + int j * stride
                 then map_option (\<lambda>v. cmul v (scale_m this)) (mem s a) else mem s a) = mem s"
    by (auto intro!: ext)
  with ge show ?case by (subst in_place_loop.simps) simp
next
  case (Suc k)
  then have lt: "i < len" and k: "k = len - Suc i" by simp_all
  from Suc.prems lt obtain v where v: "mem s (data + int i * stride) = Some v"
    by (metis le_refl not_None_eq)
  let ?a = "data + int i * stride"
  let ?s2 = "s\<lparr>mem := (mem s)(?a \<mapsto> cmul v (scale_m this)),
              accesses := accesses s @ [Rd ?a, Wr ?a]\<rparr>"
  have alloc: "\<forall>j. Suc i \<le> j \<and> j < len \<longrightarrow> mem ?s2 (data + int j * stride) \<noteq> None"
    using Suc.prems by (simp add: Suc_le_eq)
  have memeq: "(\<lambda>a. if \<exists>j. Suc i \<le> j \<and> j < len \<and> a = data + int j * stride
                 then map_option (\<lambda>v. cmul v (scale_m this)) (mem ?s2 a) else mem ?s2 a)
        = (\<lambda>a. if \<exists>j. i \<le> j \<and> j < len \<and> a = data + int j * stride
                 then map_option (\<lambda>v. cmul v (scale_m this)) (mem s a) else mem s a)"
  proof (rule ext)
    fix a
    show "(if \<exists>j. Suc i \<le> j \<and> j < len \<and> a = data + int j * stride
                 then map_option (\<lambda>v. cmul v (scale_m this)) (mem ?s2 a) else mem ?s2 a)
        = (if \<exists>j. i \<le> j \<and> j < len \<and> a = data + int j * stride
                 then map_option (\<lambda>v. cmul v (scale_m this)) (mem s a) else mem s a)"
    proof (cases "a = ?a")
      case True
      have n1: "\<not> (\<exists>j. Suc i \<le> j \<and> j < len \<and> a = data + int j * stride)"
        using True assms(1) by auto
      have n2: "\<exists>j. i \<le> j \<and> j < len \<and> a = data + int j * stride"
        using True lt by auto
      show ?thesis unfolding if_not_P [OF n1] if_P [OF n2] using True v by simp
    next
      case False
      have e: "(\<exists>j. Suc i \<le> j \<and> j < len \<and> a = data + int j * stride)
          = (\<exists>j. i \<le> j \<and> j < len \<and> a = data + int j * stride)"
        using False by (metis Suc_leD Suc_leI le_neq_implies_less)
      have m: "mem ?s2 a = mem s a"
        using False by simp
      show ?thesis by (simp only: e m)
    qed
  qed
  have "in_place_loop this data stride len i s = in_place_loop this data stride len (Suc i) ?s2"
    by (rule in_place_step [OF lt v])
  also have "\<dots> = Inr (?s2\<lparr>mem := (\<lambda>a. if \<exists>j. Suc i \<le> j \<and> j < len \<and> a = data + int j * stride
                            then map_option (\<lambda>v. cmul v (scale_m this)) (mem ?s2 a)
                            else mem ?s2 a),
                accesses := accesses ?s2 @
                  concat (map (\<lambda>j. [Rd (data + int j * stride), Wr (data + int j * stride)])
                    [Suc i..<len])\<rparr>)"
    by (rule Suc.hyps(1) [OF k alloc])
  finally show ?case
    using lt by (simp only: memeq) (simp add: upt_conv_Cons)
qed

lemma out_of_place_step:
  assumes "i < len" and "mem s (data_in + int i * stride_in) = Some v"
    and "mem s (data_out + int i * stride_out) = Some w"
  shows "out_of_place_loop this data_in stride_in data_out stride_out len i s =
         out_of_place_loop this data_in stride_in data_out stride_out len (Suc i)
           (s\<lparr>mem := (mem s)(data_out + int i * stride_out \<mapsto> cmul v (scale_m this)),
              accesses := accesses s @
                [Rd (data_in + int i * stride_in), Wr (data_out + int i * stride_out)]\<rparr>)"
  using assms by (subst out_of_place_loop.simps) (simp add: load_Some store_Some)

text \<open>Without any assumption on overlap: the loop ends normally, allocation is kept.\<close>

lemma out_of_place_loop_returns:
  assumes "\<forall>j. i \<le> j \<and> j < len \<longrightarrow> mem s (data_in + int j * stride_in) \<noteq> None"
    and "\<forall>j. i \<le> j \<and> j < len \<longrightarrow> mem s (data_out + int j * stride_out) \<noteq> None"
  shows "\<exists>m'. out_of_place_loop this data_in stride_in data_out stride_out len i s =
           Inr (s\<lparr>mem := m',
                  accesses := accesses s @
                    concat (map (\<lambda>j. [Rd (data_in + int j * stride_in),
                                       Wr (data_out + int j * stride_out)]) [i..<len])\<rparr>)
         \<and> dom m' = dom (mem s)
         \<and> (\<forall>a. (\<forall>j. i \<le> j \<and> j < len \<longrightarrow> a \<noteq> data_out + int j * stride_out) \<longrightarrow>
               m' a = mem s a)"
  using assms
proof (induction "len - i" arbitrary: i s)
  case 0
  then have ge: "\<not> i < len" by simp
  then show ?case
    by (subst out_of_place_loop.simps) (auto intro!: exI [of _ "mem s"])
next
  case (Suc k)
  then have lt: "i < len" and k: "k = len - Suc i" by simp_all
  let ?ai = "data_in + int i * stride_in"
  let ?ao = "data_out + int i * stride_out"
  from Suc.prems lt obtain v w where v: "mem s ?ai = Some v" and w: "mem s ?ao = Some w"
    by (metis le_refl not_None_eq)
  let ?s2 = "s\<lparr>mem := (mem s)(?ao \<mapsto> cmul v (scale_m this)),
              accesses := accesses s @ [Rd ?ai, Wr ?ao]\<rparr>"
  have a1: "\<forall>j. Suc i \<le> j \<and> j < len \<longrightarrow> mem ?s2 (data_in + int j * stride_in) \<noteq> None"
    using Suc.prems(1) by (simp add: Suc_le_eq)
  have a2: "\<forall>j. Suc i \<le> j \<and> j < len \<longrightarrow> mem ?s2 (data_out + int j * stride_out) \<noteq> None"
    using Suc.prems(2) by (simp add: Suc_le_eq)
  from Suc.hyps(1) [OF k a1 a2] obtain m' where
    run: "out_of_place_loop this data_in stride_in data_out stride_out len (Suc i) ?s2 =
           Inr (?s2\<lparr>mem := m',
                  accesses := accesses ?s2 @
                    concat (map (\<lambda>j. [Rd (data_in + int j * stride_in),
                                       Wr (data_out + int j * stride_out)]) [Suc i..<len])\<rparr>)"
    and d: "dom m' = dom (mem ?s2)"
    and frame: "\<forall>a. (\<forall>j. Suc i \<le> j \<and> j < len \<longrightarrow> a \<noteq> data_out + int j * stride_out) \<longrightarrow>
               m' a = mem ?s2 a"
    by blast
  have "dom (mem ?s2) = dom (mem s)"
    using w by auto
  with d have "dom m' = dom (mem s)" by simp
  moreover have "m' a = mem s a"
    if a: "\<forall>j. i \<le> j \<and> j < len \<longrightarrow> a \<noteq> data_out + int j * stride_out" for a
  proof -
    from a lt have ne: "a \<noteq> ?ao" by blast
    from a have "\<forall>j. Suc i \<le> j \<and> j < len \<longrightarrow> a \<noteq> data_out + int j * stride_out"
      by (simp add: Suc_le_eq)
    with frame have "m' a = mem ?s2 a" by blast
    with ne show ?thesis by simp
  qed
  moreover have "out_of_place_loop this data_in stride_in data_out stride_out len i s =
     Inr (s\<lparr>mem := m',
                  accesses := accesses s @
                    concat (map (\<lambda>j. [Rd (data_in + int j * stride_in),
                                       Wr (data_out + int j * stride_out)]) [i..<len])\<rparr>)"
    using lt by (simp only: out_of_place_step [OF lt v w] run) (simp add: upt_conv_Cons)
  ultimately show ?case by blast
qed

text \<open>When no element read is an element written, the values are those of the input.\<close>

lemma out_of_place_loop_run:
  assumes "stride_out \<noteq> 0"
    and "\<forall>j. i \<le> j \<and> j < len \<longrightarrow> mem s (data_in + int j * stride_in) \<noteq> None"
    and "\<forall>j. i \<le> j \<and> j < len \<longrightarrow> mem s (data_out + int j * stride_out) \<noteq> None"
    and "\<forall>j k. i \<le> j \<and> j < len \<and> i \<le> k \<and> k < len \<longrightarrow>
           data_in + int j * stride_in \<noteq> data_out + int k * stride_out"
  shows "\<exists>m'. out_of_place_loop this data_in stride_in data_out stride_out len i s =
           Inr (s\<lparr>mem := m',
                  accesses := accesses s @
                    concat (map (\<lambda>j. [Rd (data_in + int j * stride_in),
                                       Wr (data_out + int j * stride_out)]) [i..<len])\<rparr>)
         \<and> (\<forall>j. i \<le> j \<and> j < len \<longrightarrow>
               m' (data_out + int j * stride_out) =
               map_option (\<lambda>v. cmul v (scale_m this)) (mem s (data_in + int j * stride_in)))
         \<and> (\<forall>a. (\<forall>j. i \<le> j \<and> j < len \<longrightarrow> a \<noteq> data_out + int j * stride_out) \<longrightarrow>
               m' a = mem s a)"
  using assms(2-)
proof (induction "len - i" arbitrary: i s)
  case 0
  then have ge: "\<not> i < len" by simp
  then show ?case
    by (subst out_of_place_loop.simps) (auto intro!: exI [of _ "mem s"])
next
  case (Suc k)
  then have lt: "i < len" and k: "k = len - Suc i" by simp_all
  let ?ai = "data_in + int i * stride_in"
  let ?ao = "data_out + int i * stride_out"
  let ?f = "\<lambda>v. cmul v (scale_m this)"
  from Suc.prems lt obtain v w where v: "mem s ?ai = Some v" and w: "mem s ?ao = Some w"
    by (metis le_refl not_None_eq)
  let ?s2 = "s\<lparr>mem := (mem s)(?ao \<mapsto> cmul v (scale_m this)),
              accesses := accesses s @ [Rd ?ai, Wr ?ao]\<rparr>"
  have a1: "\<forall>j. Suc i \<le> j \<and> j < len \<longrightarrow> mem ?s2 (data_in + int j * stride_in) \<noteq> None"
    using Suc.prems(1) by (simp add: Suc_le_eq)
  have a2: "\<forall>j. Suc i \<le> j \<and> j < len \<longrightarrow> mem ?s2 (data_out + int j * stride_out) \<noteq> None"
    using Suc.prems(2) by (simp add: Suc_le_eq)
  have a3: "\<forall>j k. Suc i \<le> j \<and> j < len \<and> Suc i \<le> k \<and> k < len \<longrightarrow>
           data_in + int j * stride_in \<noteq> data_out + int k * stride_out"
    using Suc.prems(3) by (simp add: Suc_le_eq)
  from Suc.hyps(1) [OF k a1 a2 a3] obtain m' where
    run: "out_of_place_loop this data_in stride_in data_out stride_out len (Suc i) ?s2 =
           Inr (?s2\<lparr>mem := m',
                  accesses := accesses ?s2 @
                    concat (map (\<lambda>j. [Rd (data_in + int j * stride_in),
                                       Wr (data_out + int j * stride_out)]) [Suc i..<len])\<rparr>)"
    and vals: "\<forall>j. Suc i \<le> j \<and> j < len \<longrightarrow>
               m' (data_out + int j * stride_out) = map_option ?f (mem ?s2 (data_in + int j * stride_in))"
    and frame: "\<forall>a. (\<forall>j. Suc i \<le> j \<and> j < len \<longrightarrow> a \<noteq> data_out + int j * stride_out) \<longrightarrow>
               m' a = mem ?s2 a"
    by blast
  have eq: "out_of_place_loop this data_in stride_in data_out stride_out len i s =
     Inr (s\<lparr>mem := m',
                  accesses := accesses s @
                    concat (map (\<lambda>j. [Rd (data_in + int j * stride_in),
                                       Wr (data_out + int j * stride_out)]) [i..<len])\<rparr>)"
    using lt by (simp only: out_of_place_step [OF lt v w] run) (simp add: upt_conv_Cons)
  have vals': "m' (data_out + int j * stride_out) = map_option ?f (mem s (data_in + int j * stride_in))"
    if j: "i \<le> j" "j < len" for j
  proof (cases "j = i")
    case True
    have "\<forall>j'. Suc i \<le> j' \<and> j' < len \<longrightarrow> ?ao \<noteq> data_out + int j' * stride_out"
      using assms(1) by auto
    with frame have "m' ?ao = mem ?s2 ?ao" by blast
    then show ?thesis using True v by simp
  next
    case False
    with j have j': "Suc i \<le> j" by simp
    have "data_in + int j * stride_in \<noteq> ?ao"
      using Suc.prems(3) j lt by blast
    then have "mem ?s2 (data_in + int j * stride_in) = mem s (data_in + int j * stride_in)"
      by simp
    with vals j' j(2) show ?thesis by simp
  qed
  have frame': "m' a = mem s a"
    if a: "\<forall>j. i \<le> j \<and> j < len \<longrightarrow> a \<noteq> data_out + int j * stride_out" for a
  proof -
    from a lt have ne: "a \<noteq> ?ao" by blast
    from a have "\<forall>j. Suc i \<le> j \<and> j < len \<longrightarrow> a \<noteq> data_out + int j * stride_out"
      by (simp add: Suc_le_eq)
    with frame have "m' a = mem ?s2 a" by blast
    with ne show ?thesis by simp
  qed
  from eq vals' frame' show ?case by blast
qed

subsection \<open>The transforms as a whole\<close>

lemma in_place_run:
  assumes "stride \<noteq> 0"
    and "\<forall>j<len. mem s (data + int j * stride) \<noteq> None"
  shows "in_place this data stride len s =
         Inr (s\<lparr>mem := (\<lambda>a. if \<exists>j. 0 \<le> j \<and> j < len \<and> a = data + int j * stride
                            then map_option (\<lambda>v. cmul v (scale_m this)) (mem s a)
                            else mem s a),
                accesses := accesses s @
                  concat (map (\<lambda>j. [Rd (data + int j * stride), Wr (data + int j * stride)])
                    [0..<len]),
                cout := cout s @ [''examples::Fft_1024::in_place called'']\<rparr>)"
proof -
  have "\<forall>j. 0 \<le> j \<and> j < len \<longrightarrow> mem s (data + int j * stride) \<noteq> None"
    using assms(2) by simp
  from in_place_loop_run [OF assms(1) this, of this]
  show ?thesis by (simp add: in_place_def)
qed

lemma out_of_place_returns:
  assumes "\<forall>j<len. mem s (data_in + int j * stride_in) \<noteq> None"
    and "\<forall>j<len. mem s (data_out + int j * stride_out) \<noteq> None"
  shows "\<exists>m'. out_of_place this data_in stride_in data_out stride_out len s =
           Inr (s\<lparr>mem := m',
                  accesses := accesses s @
                    concat (map (\<lambda>j. [Rd (data_in + int j * stride_in),
                                       Wr (data_out + int j * stride_out)]) [0..<len]),
                  cout := cout s @ [''examples::Fft_1024::out_of_place called'']\<rparr>)
         \<and> dom m' = dom (mem s)
         \<and> (\<forall>a. (\<forall>j<len. a \<noteq> data_out + int j * stride_out) \<longrightarrow> m' a = mem s a)"
proof -
  have a1: "\<forall>j. 0 \<le> j \<and> j < len \<longrightarrow> mem s (data_in + int j * stride_in) \<noteq> None"
    using assms(1) by simp
  have a2: "\<forall>j. 0 \<le> j \<and> j < len \<longrightarrow> mem s (data_out + int j * stride_out) \<noteq> None"
    using assms(2) by simp
  from out_of_place_loop_returns [OF a1 a2, of this] obtain m' where
    run: "out_of_place_loop this data_in stride_in data_out stride_out len 0 s =
           Inr (s\<lparr>mem := m',
                  accesses := accesses s @
                    concat (map (\<lambda>j. [Rd (data_in + int j * stride_in),
                                       Wr (data_out + int j * stride_out)]) [0..<len])\<rparr>)"
    and d: "dom m' = dom (mem s)"
    and frame: "\<forall>a. (\<forall>j. 0 \<le> j \<and> j < len \<longrightarrow> a \<noteq> data_out + int j * stride_out) \<longrightarrow>
               m' a = mem s a"
    by blast
  from frame have "\<forall>a. (\<forall>j<len. a \<noteq> data_out + int j * stride_out) \<longrightarrow> m' a = mem s a"
    by simp
  with run d show ?thesis
    by (auto simp: out_of_place_def intro!: exI [of _ m'])
qed

lemma out_of_place_run:
  assumes "stride_out \<noteq> 0"
    and "\<forall>j<len. mem s (data_in + int j * stride_in) \<noteq> None"
    and "\<forall>j<len. mem s (data_out + int j * stride_out) \<noteq> None"
    and "\<forall>j<len. \<forall>k<len. data_in + int j * stride_in \<noteq> data_out + int k * stride_out"
  shows "\<exists>m'. out_of_place this data_in stride_in data_out stride_out len s =
           Inr (s\<lparr>mem := m',
                  accesses := accesses s @
                    concat (map (\<lambda>j. [Rd (data_in + int j * stride_in),
                                       Wr (data_out + int j * stride_out)]) [0..<len]),
                  cout := cout s @ [''examples::Fft_1024::out_of_place called'']\<rparr>)
         \<and> (\<forall>j<len. m' (data_out + int j * stride_out) =
               map_option (\<lambda>v. cmul v (scale_m this)) (mem s (data_in + int j * stride_in)))
         \<and> (\<forall>a. (\<forall>j<len. a \<noteq> data_out + int j * stride_out) \<longrightarrow> m' a = mem s a)"
proof -
  have a1: "\<forall>j. 0 \<le> j \<and> j < len \<longrightarrow> mem s (data_in + int j * stride_in) \<noteq> None"
    using assms(2) by simp
  have a2: "\<forall>j. 0 \<le> j \<and> j < len \<longrightarrow> mem s (data_out + int j * stride_out) \<noteq> None"
    using assms(3) by simp
  have a3: "\<forall>j k. 0 \<le> j \<and> j < len \<and> 0 \<le> k \<and> k < len \<longrightarrow>
           data_in + int j * stride_in \<noteq> data_out + int k * stride_out"
    using assms(4) by simp
  from out_of_place_loop_run [OF assms(1) a1 a2 a3, of this] obtain m' where
    run: "out_of_place_loop this data_in stride_in data_out stride_out len 0 s =
           Inr (s\<lparr>mem := m',
                  accesses := accesses s @
                    concat (map (\<lambda>j. [Rd (data_in + int j * stride_in),
                                       Wr (data_out + int j * stride_out)]) [0..<len])\<rparr>)"
    and vals: "\<forall>j. 0 \<le> j \<and> j < len \<longrightarrow>
               m' (data_out + int j * stride_out) =
               map_option (\<lambda>v. cmul v (scale_m this)) (mem s (data_in + int j * stride_in))"
    and frame: "\<forall>a. (\<forall>j. 0 \<le> j \<and> j < len \<longrightarrow> a \<noteq> data_out + int j * stride_out) \<longrightarrow>
               m' a = mem s a"
    by blast
  from frame have f: "\<forall>a. (\<forall>j<len. a \<noteq> data_out + int j * stride_out) \<longrightarrow> m' a = mem s a"
    by simp
  from vals have v: "\<forall>j<len. m' (data_out + int j * stride_out) =
               map_option (\<lambda>v. cmul v (scale_m this)) (mem s (data_in + int j * stride_in))"
    by simp
  from run v f show ?thesis
    by (auto simp: out_of_place_def intro!: exI [of _ m'])
qed

subsection \<open>Buffers and bounds\<close>

lemma in_bounds_allocated:
  assumes "buffer_at s p n" and "in_bounds stride len n" and "i < len"
  shows "mem s (p + int i * stride) \<noteq> None"
proof -
  from assms(2,3) have b: "0 \<le> int i * stride" "int i * stride < int n"
    by (simp_all add: in_bounds_def)
  then have "nat (int i * stride) < n" by simp
  with assms(1) have "mem s (p + int (nat (int i * stride))) \<noteq> None"
    unfolding buffer_at_def by blast
  with b(1) show ?thesis by simp
qed

lemma fits_in_bounds:
  assumes "1 \<le> stride" and "(int len - 1) * stride + 1 \<le> int n"
  shows "in_bounds stride len n"
  unfolding in_bounds_def
proof (intro allI impI)
  fix i assume "i < len"
  then have "int i \<le> int len - 1" by simp
  with assms(1) have "int i * stride \<le> (int len - 1) * stride"
    by (intro mult_right_mono) simp_all
  with assms(2) have "int i * stride < int n" by simp
  moreover from assms(1) have "0 \<le> int i * stride" by simp
  ultimately show "0 \<le> int i * stride \<and> int i * stride < int n" by simp
qed

text \<open>
  An offset that is in bounds of a buffer of at most \<open>2 ^ w\<close> elements is not changed
  by reducing it modulo \<open>2 ^ w\<close>: unsigned machine arithmetic of any width that can
  index the buffer computes the offsets of the model.
\<close>

lemma in_bounds_offset_exact:
  assumes "in_bounds stride len n" and "int n \<le> 2 ^ w" and "i < len"
  shows "(int i * stride) mod 2 ^ w = int i * stride"
proof -
  from assms(1,3) have lo: "0 \<le> int i * stride" and "int i * stride < int n"
    by (simp_all add: in_bounds_def)
  with assms(2) have hi: "int i * stride < 2 ^ w" by linarith
  from lo hi show ?thesis by (rule mod_pos_pos_trivial)
qed

lemma non_overlapping_addrs:
  assumes "non_overlapping p n q m" and "in_bounds sp len n" and "in_bounds sq len m"
    and "j < len" and "k < len"
  shows "p + int j * sp \<noteq> q + int k * sq"
proof -
  from assms(2,4) have "0 \<le> int j * sp" "int j * sp < int n"
    by (simp_all add: in_bounds_def)
  moreover from assms(3,5) have "0 \<le> int k * sq" "int k * sq < int m"
    by (simp_all add: in_bounds_def)
  ultimately show ?thesis
    using assms(1) unfolding non_overlapping_def by linarith
qed

lemma strided_distinct:
  assumes "stride \<noteq> 0"
  shows "distinct (map (\<lambda>i. data + int i * stride) [0..<len])"
  using assms by (simp add: distinct_map inj_on_def)

subsection \<open>Concrete buffers\<close>

lemma example_buffers:
  "buffer_at example_state 0 3" "buffer_at example_state 3 2"
  by (simp_all add: buffer_at_def example_state_def numeral_3_eq_3 numeral_2_eq_2 All_less_Suc)

lemma example_bounds:
  "in_bounds 2 2 3" "in_bounds 1 2 2"
  by (simp_all add: in_bounds_def numeral_2_eq_2 All_less_Suc)

subsection \<open>The in-place transform\<close>

text \<open>
  C3. Let \<open>data\<close> point to a buffer of \<open>n\<close> elements, let the stride be at least 1 and
  let the accesses \<open>data[i * stride]\<close>, \<open>i < len\<close>, lie in the buffer. Then
  \<open>in_place\<close> returns normally; every element \<open>data[i * stride]\<close> with \<open>i < len\<close>
  holds its old value multiplied by the stored scale factor; every other address, inside
  the buffer or outside, holds what it held before; and the accesses made are one read
  followed by one write of \<open>data[i * stride]\<close> for \<open>i = 0, \<dots>, len - 1\<close> in turn, at
  pairwise distinct addresses, so that each element is read once and written once.
\<close>

theorem C3_in_place:
  assumes "1 \<le> stride" and "buffer_at s data n" and "in_bounds stride len n"
  shows "\<exists>s'. in_place this data stride len s = Inr s'
     \<and> (\<forall>i<len. \<exists>v. mem s (data + int i * stride) = Some v
            \<and> mem s' (data + int i * stride) = Some (cmul v (scale_m this)))
     \<and> (\<forall>a. (\<forall>i<len. a \<noteq> data + int i * stride) \<longrightarrow> mem s' a = mem s a)
     \<and> accesses s' = accesses s @
          concat (map (\<lambda>i. [Rd (data + int i * stride), Wr (data + int i * stride)]) [0..<len])
     \<and> distinct (map (\<lambda>i. data + int i * stride) [0..<len])"
proof -
  from assms(1) have nz: "stride \<noteq> 0" by simp
  have alloc: "\<forall>j<len. mem s (data + int j * stride) \<noteq> None"
    using in_bounds_allocated [OF assms(2,3)] by blast
  let ?s' = "s\<lparr>mem := (\<lambda>a. if \<exists>j. 0 \<le> j \<and> j < len \<and> a = data + int j * stride
                            then map_option (\<lambda>v. cmul v (scale_m this)) (mem s a)
                            else mem s a),
                accesses := accesses s @
                  concat (map (\<lambda>j. [Rd (data + int j * stride), Wr (data + int j * stride)])
                    [0..<len]),
                cout := cout s @ [''examples::Fft_1024::in_place called'']\<rparr>"
  have run: "in_place this data stride len s = Inr ?s'"
    by (rule in_place_run [OF nz alloc])
  have vals: "\<forall>i<len. \<exists>v. mem s (data + int i * stride) = Some v
            \<and> mem ?s' (data + int i * stride) = Some (cmul v (scale_m this))"
  proof (intro allI impI)
    fix i assume i: "i < len"
    with alloc obtain v where v: "mem s (data + int i * stride) = Some v" by blast
    from i have "\<exists>j. 0 \<le> j \<and> j < len \<and> data + int i * stride = data + int j * stride"
      by blast
    with v show "\<exists>v. mem s (data + int i * stride) = Some v
            \<and> mem ?s' (data + int i * stride) = Some (cmul v (scale_m this))"
      by simp
  qed
  have frame: "\<forall>a. (\<forall>i<len. a \<noteq> data + int i * stride) \<longrightarrow> mem ?s' a = mem s a"
    by auto
  have acc: "accesses ?s' = accesses s @
          concat (map (\<lambda>i. [Rd (data + int i * stride), Wr (data + int i * stride)]) [0..<len])"
    by simp
  from run vals frame acc strided_distinct [OF nz, of data len] show ?thesis
    by blast
qed

theorem C3_in_place_witness:
  "(1::int) \<le> 2 \<and> buffer_at example_state 0 3 \<and> in_bounds 2 2 3
   \<and> (\<exists>s'. in_place \<lparr>scale_m = 10\<rparr> 0 2 2 example_state = Inr s'
        \<and> mem s' 0 = Some \<lparr>re = 20, im = 30\<rparr>
        \<and> mem s' 1 = Some \<lparr>re = 4, im = 5\<rparr>
        \<and> mem s' 2 = Some \<lparr>re = 60, im = 70\<rparr>
        \<and> accesses s' = [Rd 0, Wr 0, Rd 2, Wr 2])"
proof -
  have h1: "(1::int) \<le> 2" by simp
  from C3_in_place [OF h1 example_buffers(1) example_bounds(1), of "\<lparr>scale_m = 10\<rparr>"]
  obtain s' where run: "in_place \<lparr>scale_m = 10\<rparr> 0 2 2 example_state = Inr s'"
    and vals: "\<forall>i<2. \<exists>v. mem example_state (0 + int i * 2) = Some v
            \<and> mem s' (0 + int i * 2) = Some (cmul v (scale_m \<lparr>scale_m = (10::int)\<rparr>))"
    and frame: "\<forall>a. (\<forall>i<2. a \<noteq> 0 + int i * 2) \<longrightarrow> mem s' a = mem example_state a"
    and acc: "accesses s' = accesses example_state @
          concat (map (\<lambda>i. [Rd (0 + int i * 2), Wr (0 + int i * 2)]) [0..<2])"
    by blast
  from vals have "mem s' 0 = Some \<lparr>re = 20, im = 30\<rparr>" "mem s' 2 = Some \<lparr>re = 60, im = 70\<rparr>"
    by (simp_all add: numeral_2_eq_2 All_less_Suc example_state_def cmul_def)
  moreover from frame have "mem s' 1 = Some \<lparr>re = 4, im = 5\<rparr>"
    by (simp add: numeral_2_eq_2 All_less_Suc example_state_def)
  moreover from acc have "accesses s' = [Rd 0, Wr 0, Rd 2, Wr 2]"
    by (simp add: numeral_2_eq_2 upt_conv_Cons example_state_def)
  ultimately show ?thesis
    using h1 example_buffers(1) example_bounds(1) run by blast
qed

text \<open>
  C8. Let the product of the element type satisfy \<open>1 * 1 = 1\<close> and \<open>0 * 1 = 0\<close>, as
  the single-precision product does. For a backend constructed with scale 1, the
  in-place transform with stride 1 and length 1024 on a buffer of 1024 elements of value
  1 (real part 1, imaginary part 0) returns normally and leaves the memory as it was.
\<close>

theorem C8_unit_scale:
  fixes s :: "('f::{times,one,zero}) state"
  assumes "(1::'f) * 1 = 1" and "(0::'f) * 1 = 0"
    and "\<forall>k<1024. mem s (data + int k) = Some \<lparr>re = 1, im = 0\<rparr>"
  shows "\<exists>s'. in_place (fst (Fft_1024_init dm 1 s0)) data 1 1024 s = Inr s'
     \<and> mem s' = mem s
     \<and> (\<forall>k<1024. mem s' (data + int k) = Some \<lparr>re = 1, im = 0\<rparr>)"
proof -
  let ?obj = "fst (Fft_1024_init dm (1::'f) s0)"
  have sc: "scale_m ?obj = 1" by (simp add: Fft_1024_init_def)
  have alloc: "\<forall>j<1024. mem s (data + int j * 1) \<noteq> None"
    using assms(3) by simp
  let ?m' = "\<lambda>a. if \<exists>j. 0 \<le> j \<and> j < (1024::nat) \<and> a = data + int j * 1
                 then map_option (\<lambda>v. cmul v (scale_m ?obj)) (mem s a) else mem s a"
  have run: "in_place ?obj data 1 1024 s =
         Inr (s\<lparr>mem := ?m',
                accesses := accesses s @
                  concat (map (\<lambda>j. [Rd (data + int j * 1), Wr (data + int j * 1)]) [0..<1024]),
                cout := cout s @ [''examples::Fft_1024::in_place called'']\<rparr>)"
    by (rule in_place_run [OF _ alloc]) simp
  have unit: "cmul \<lparr>re = 1, im = 0\<rparr> (1::'f) = \<lparr>re = 1, im = 0\<rparr>"
    using assms(1,2) by (simp add: cmul_def)
  have same: "?m' = mem s"
  proof (rule ext)
    fix a
    show "?m' a = mem s a"
    proof (cases "\<exists>j. 0 \<le> j \<and> j < (1024::nat) \<and> a = data + int j * 1")
      case True
      then obtain j where "j < 1024" "a = data + int j" by auto
      with assms(3) have "mem s a = Some \<lparr>re = 1, im = 0\<rparr>" by simp
      with True show ?thesis by (simp only: if_True sc) (simp add: unit)
    next
      case False
      then show ?thesis by (simp only: if_False)
    qed
  qed
  from run same assms(3) show ?thesis by simp
qed

theorem C8_unit_scale_witness:
  "(1::int) * 1 = 1 \<and> (0::int) * 1 = 0
   \<and> mem unit_state 0 = Some \<lparr>re = 1, im = 0\<rparr>
   \<and> mem unit_state 1023 = Some \<lparr>re = 1, im = 0\<rparr>
   \<and> (\<exists>s'. in_place (fst (Fft_1024_init \<lparr>dom_size = 1024\<rparr> 1 unit_state)) 0 1 1024 unit_state
              = Inr s'
        \<and> mem s' = mem unit_state
        \<and> mem s' 0 = Some \<lparr>re = 1, im = 0\<rparr>
        \<and> mem s' 1023 = Some \<lparr>re = 1, im = 0\<rparr>)"
proof -
  have h1: "(1::int) * 1 = 1" and h2: "(0::int) * 1 = 0" by simp_all
  have h3: "\<forall>k<1024. mem unit_state (0 + int k) = Some \<lparr>re = 1, im = 0\<rparr>"
    by (simp add: unit_state_def)
  have v: "mem unit_state 0 = Some \<lparr>re = 1, im = 0\<rparr>"
    "mem unit_state 1023 = Some \<lparr>re = 1, im = 0\<rparr>"
    by (simp_all add: unit_state_def)
  from C8_unit_scale [OF h1 h2 h3, of "\<lparr>dom_size = 1024\<rparr>" unit_state]
  obtain s' where
    "in_place (fst (Fft_1024_init \<lparr>dom_size = 1024\<rparr> 1 unit_state)) 0 1 1024 unit_state = Inr s'"
    "mem s' = mem unit_state"
    by blast
  with h1 h2 v show ?thesis by simp
qed

subsection \<open>The out-of-place transform\<close>

text \<open>
  C4. Let \<open>data_in\<close> and \<open>data_out\<close> point to two buffers that do not overlap, let
  both strides be at least 1 and let the accesses lie in the buffers. Then
  \<open>out_of_place\<close> returns normally; for every \<open>i < len\<close> the element
  \<open>data_out[i * stride_out]\<close> holds the old value of \<open>data_in[i * stride_in]\<close>
  multiplied by the stored scale factor; every address that is not one of these output
  elements holds what it held before; and the accesses made are the read of
  \<open>data_in[i * stride_in]\<close> followed by the write of \<open>data_out[i * stride_out]\<close>, for
  \<open>i = 0, \<dots>, len - 1\<close> in turn.
\<close>

theorem C4_out_of_place:
  assumes "1 \<le> stride_in" and "1 \<le> stride_out"
    and "buffer_at s data_in n_in" and "buffer_at s data_out n_out"
    and "in_bounds stride_in len n_in" and "in_bounds stride_out len n_out"
    and "non_overlapping data_in n_in data_out n_out"
  shows "\<exists>s'. out_of_place this data_in stride_in data_out stride_out len s = Inr s'
     \<and> (\<forall>i<len. \<exists>v. mem s (data_in + int i * stride_in) = Some v
            \<and> mem s' (data_out + int i * stride_out) = Some (cmul v (scale_m this)))
     \<and> (\<forall>a. (\<forall>i<len. a \<noteq> data_out + int i * stride_out) \<longrightarrow> mem s' a = mem s a)
     \<and> accesses s' = accesses s @
          concat (map (\<lambda>i. [Rd (data_in + int i * stride_in),
                             Wr (data_out + int i * stride_out)]) [0..<len])"
proof -
  from assms(2) have nz: "stride_out \<noteq> 0" by simp
  have a_in: "\<forall>j<len. mem s (data_in + int j * stride_in) \<noteq> None"
    using in_bounds_allocated [OF assms(3,5)] by blast
  have a_out: "\<forall>j<len. mem s (data_out + int j * stride_out) \<noteq> None"
    using in_bounds_allocated [OF assms(4,6)] by blast
  have apart: "\<forall>j<len. \<forall>k<len. data_in + int j * stride_in \<noteq> data_out + int k * stride_out"
    using non_overlapping_addrs [OF assms(7,5,6)] by blast
  from out_of_place_run [OF nz a_in a_out apart, of this] obtain m' where
    run: "out_of_place this data_in stride_in data_out stride_out len s =
           Inr (s\<lparr>mem := m',
                  accesses := accesses s @
                    concat (map (\<lambda>j. [Rd (data_in + int j * stride_in),
                                       Wr (data_out + int j * stride_out)]) [0..<len]),
                  cout := cout s @ [''examples::Fft_1024::out_of_place called'']\<rparr>)"
    and vals: "\<forall>j<len. m' (data_out + int j * stride_out) =
               map_option (\<lambda>v. cmul v (scale_m this)) (mem s (data_in + int j * stride_in))"
    and frame: "\<forall>a. (\<forall>j<len. a \<noteq> data_out + int j * stride_out) \<longrightarrow> m' a = mem s a"
    by blast
  have vals': "\<forall>i<len. \<exists>v. mem s (data_in + int i * stride_in) = Some v
            \<and> m' (data_out + int i * stride_out) = Some (cmul v (scale_m this))"
  proof (intro allI impI)
    fix i assume i: "i < len"
    with a_in obtain v where v: "mem s (data_in + int i * stride_in) = Some v" by blast
    with vals i show "\<exists>v. mem s (data_in + int i * stride_in) = Some v
            \<and> m' (data_out + int i * stride_out) = Some (cmul v (scale_m this))"
      by simp
  qed
  from run vals' frame show ?thesis by simp
qed

theorem C4_out_of_place_witness:
  "(1::int) \<le> 2 \<and> (1::int) \<le> 1
   \<and> buffer_at example_state 0 3 \<and> buffer_at example_state 3 2
   \<and> in_bounds 2 2 3 \<and> in_bounds 1 2 2 \<and> non_overlapping 0 3 3 2
   \<and> (\<exists>s'. out_of_place \<lparr>scale_m = 10\<rparr> 0 2 3 1 2 example_state = Inr s'
        \<and> mem s' 3 = Some \<lparr>re = 20, im = 30\<rparr>
        \<and> mem s' 4 = Some \<lparr>re = 60, im = 70\<rparr>
        \<and> mem s' 0 = Some \<lparr>re = 2, im = 3\<rparr>
        \<and> accesses s' = [Rd 0, Wr 3, Rd 2, Wr 4])"
proof -
  have h1: "(1::int) \<le> 2" and h2: "(1::int) \<le> 1" by simp_all
  have h7: "non_overlapping 0 3 3 2" by (simp add: non_overlapping_def)
  from C4_out_of_place [OF h1 h2 example_buffers example_bounds h7, of "\<lparr>scale_m = 10\<rparr>"]
  obtain s' where run: "out_of_place \<lparr>scale_m = 10\<rparr> 0 2 3 1 2 example_state = Inr s'"
    and vals: "\<forall>i<2. \<exists>v. mem example_state (0 + int i * 2) = Some v
            \<and> mem s' (3 + int i * 1) = Some (cmul v (scale_m \<lparr>scale_m = (10::int)\<rparr>))"
    and frame: "\<forall>a. (\<forall>i<2. a \<noteq> 3 + int i * 1) \<longrightarrow> mem s' a = mem example_state a"
    and acc: "accesses s' = accesses example_state @
          concat (map (\<lambda>i. [Rd (0 + int i * 2), Wr (3 + int i * 1)]) [0..<2])"
    by blast
  from vals have "mem s' 3 = Some \<lparr>re = 20, im = 30\<rparr>" "mem s' 4 = Some \<lparr>re = 60, im = 70\<rparr>"
    by (simp_all add: numeral_2_eq_2 All_less_Suc example_state_def cmul_def)
  moreover from frame have "mem s' 0 = Some \<lparr>re = 2, im = 3\<rparr>"
    by (simp add: numeral_2_eq_2 All_less_Suc example_state_def)
  moreover from acc have "accesses s' = [Rd 0, Wr 3, Rd 2, Wr 4]"
    by (simp add: numeral_2_eq_2 upt_conv_Cons example_state_def)
  ultimately show ?thesis
    using h1 h2 h7 example_buffers example_bounds run by blast
qed

text \<open>
  C5. Let \<open>data_in\<close> and \<open>data_out\<close> point to two buffers that do not overlap and let
  the accesses lie in the buffers. Then \<open>out_of_place\<close> returns normally, every
  element of the input buffer holds its original value after the call, and none of the
  accesses of the call is a write to an element of the input buffer.
\<close>

theorem C5_input_unchanged:
  assumes "buffer_at s data_in n_in" and "buffer_at s data_out n_out"
    and "in_bounds stride_in len n_in" and "in_bounds stride_out len n_out"
    and "non_overlapping data_in n_in data_out n_out"
  shows "\<exists>s' new. out_of_place this data_in stride_in data_out stride_out len s = Inr s'
     \<and> (\<forall>k<n_in. mem s' (data_in + int k) = mem s (data_in + int k))
     \<and> accesses s' = accesses s @ new
     \<and> (\<forall>k<n_in. Wr (data_in + int k) \<notin> set new)"
proof -
  have a_in: "\<forall>j<len. mem s (data_in + int j * stride_in) \<noteq> None"
    using in_bounds_allocated [OF assms(1,3)] by blast
  have a_out: "\<forall>j<len. mem s (data_out + int j * stride_out) \<noteq> None"
    using in_bounds_allocated [OF assms(2,4)] by blast
  let ?new = "concat (map (\<lambda>j. [Rd (data_in + int j * stride_in),
                                 Wr (data_out + int j * stride_out)]) [0..<len])"
  from out_of_place_returns [OF a_in a_out, of this] obtain m' where
    run: "out_of_place this data_in stride_in data_out stride_out len s =
           Inr (s\<lparr>mem := m', accesses := accesses s @ ?new,
                  cout := cout s @ [''examples::Fft_1024::out_of_place called'']\<rparr>)"
    and frame: "\<forall>a. (\<forall>j<len. a \<noteq> data_out + int j * stride_out) \<longrightarrow> m' a = mem s a"
    by blast
  have apart: "data_in + int k \<noteq> data_out + int j * stride_out" if "k < n_in" "j < len" for k j
  proof -
    from assms(4) that(2) have "0 \<le> int j * stride_out" "int j * stride_out < int n_out"
      by (simp_all add: in_bounds_def)
    with assms(5) that(1) show ?thesis
      unfolding non_overlapping_def by linarith
  qed
  have keep: "\<forall>k<n_in. m' (data_in + int k) = mem s (data_in + int k)"
    using frame apart by blast
  have nowrite: "\<forall>k<n_in. Wr (data_in + int k) \<notin> set ?new"
    using apart by auto
  from run keep nowrite show ?thesis by simp
qed

theorem C5_input_unchanged_witness:
  "buffer_at example_state 0 3 \<and> buffer_at example_state 3 2
   \<and> in_bounds 2 2 3 \<and> in_bounds 1 2 2 \<and> non_overlapping 0 3 3 2
   \<and> (\<exists>s'. out_of_place \<lparr>scale_m = 10\<rparr> 0 2 3 1 2 example_state = Inr s'
        \<and> mem s' 0 = Some \<lparr>re = 2, im = 3\<rparr>
        \<and> mem s' 1 = Some \<lparr>re = 4, im = 5\<rparr>
        \<and> mem s' 2 = Some \<lparr>re = 6, im = 7\<rparr>)"
proof -
  have h5: "non_overlapping 0 3 3 2" by (simp add: non_overlapping_def)
  from C5_input_unchanged [OF example_buffers example_bounds h5, of "\<lparr>scale_m = 10\<rparr>"]
  obtain s' where run: "out_of_place \<lparr>scale_m = 10\<rparr> 0 2 3 1 2 example_state = Inr s'"
    and keep: "\<forall>k<3. mem s' (0 + int k) = mem example_state (0 + int k)"
    by blast
  from keep have "mem s' 0 = Some \<lparr>re = 2, im = 3\<rparr>" "mem s' 1 = Some \<lparr>re = 4, im = 5\<rparr>"
    "mem s' 2 = Some \<lparr>re = 6, im = 7\<rparr>"
    by (simp_all add: numeral_3_eq_3 All_less_Suc example_state_def)
  then show ?thesis
    using h5 example_buffers example_bounds run by blast
qed

subsection \<open>Accesses stay in bounds\<close>

text \<open>
  C10. Let both strides be at least 1, and let each buffer hold at least
  \<open>(len - 1) * stride + 1\<close> elements for its own stride. Then every offset
  \<open>i * stride\<close> with \<open>i < len\<close> is an index of its buffer; \<open>in_place\<close> on the first
  buffer and \<open>out_of_place\<close> on both buffers return normally, that is, never with
  \<open>Out_of_bounds\<close>; and every access they make is to an element of the buffer it is
  meant for. The two buffers may overlap.
\<close>

theorem C10_no_out_of_bounds:
  assumes "1 \<le> stride_in" and "1 \<le> stride_out"
    and "(int len - 1) * stride_in + 1 \<le> int n_in"
    and "(int len - 1) * stride_out + 1 \<le> int n_out"
    and "buffer_at s data_in n_in" and "buffer_at s data_out n_out"
  shows "in_bounds stride_in len n_in \<and> in_bounds stride_out len n_out
     \<and> (\<exists>s' new. in_place this data_in stride_in len s = Inr s'
           \<and> accesses s' = accesses s @ new
           \<and> (\<forall>e\<in>set new. data_in \<le> addr_of e \<and> addr_of e < data_in + int n_in))
     \<and> (\<exists>s' new. out_of_place this data_in stride_in data_out stride_out len s = Inr s'
           \<and> accesses s' = accesses s @ new
           \<and> (\<forall>a. (Rd a \<in> set new \<longrightarrow> data_in \<le> a \<and> a < data_in + int n_in)
                 \<and> (Wr a \<in> set new \<longrightarrow> data_out \<le> a \<and> a < data_out + int n_out)))"
proof -
  have b_in: "in_bounds stride_in len n_in"
    by (rule fits_in_bounds [OF assms(1,3)])
  have b_out: "in_bounds stride_out len n_out"
    by (rule fits_in_bounds [OF assms(2,4)])
  have r_in: "0 \<le> int j * stride_in \<and> int j * stride_in < int n_in" if "j < len" for j
    using b_in that by (simp add: in_bounds_def)
  have r_out: "0 \<le> int j * stride_out \<and> int j * stride_out < int n_out" if "j < len" for j
    using b_out that by (simp add: in_bounds_def)
  have a_in: "\<forall>j<len. mem s (data_in + int j * stride_in) \<noteq> None"
    using in_bounds_allocated [OF assms(5) b_in] by blast
  have a_out: "\<forall>j<len. mem s (data_out + int j * stride_out) \<noteq> None"
    using in_bounds_allocated [OF assms(6) b_out] by blast
  from assms(1) have nz: "stride_in \<noteq> 0" by simp
  let ?new1 = "concat (map (\<lambda>j. [Rd (data_in + int j * stride_in),
                                  Wr (data_in + int j * stride_in)]) [0..<len])"
  have "\<forall>e\<in>set ?new1. data_in \<le> addr_of e \<and> addr_of e < data_in + int n_in"
    using r_in by auto
  with in_place_run [OF nz a_in, of this]
  have one: "\<exists>s' new. in_place this data_in stride_in len s = Inr s'
           \<and> accesses s' = accesses s @ new
           \<and> (\<forall>e\<in>set new. data_in \<le> addr_of e \<and> addr_of e < data_in + int n_in)"
    by simp
  let ?new2 = "concat (map (\<lambda>j. [Rd (data_in + int j * stride_in),
                                  Wr (data_out + int j * stride_out)]) [0..<len])"
  have acc2: "\<forall>a. (Rd a \<in> set ?new2 \<longrightarrow> data_in \<le> a \<and> a < data_in + int n_in)
                 \<and> (Wr a \<in> set ?new2 \<longrightarrow> data_out \<le> a \<and> a < data_out + int n_out)"
    using r_in r_out by auto
  from out_of_place_returns [OF a_in a_out, of this] obtain m' where
    "out_of_place this data_in stride_in data_out stride_out len s =
           Inr (s\<lparr>mem := m', accesses := accesses s @ ?new2,
                  cout := cout s @ [''examples::Fft_1024::out_of_place called'']\<rparr>)"
    by blast
  with acc2
  have two: "\<exists>s' new. out_of_place this data_in stride_in data_out stride_out len s = Inr s'
           \<and> accesses s' = accesses s @ new
           \<and> (\<forall>a. (Rd a \<in> set new \<longrightarrow> data_in \<le> a \<and> a < data_in + int n_in)
                 \<and> (Wr a \<in> set new \<longrightarrow> data_out \<le> a \<and> a < data_out + int n_out))"
    by simp
  from b_in b_out one two show ?thesis by blast
qed

theorem C10_no_out_of_bounds_witness:
  "(1::int) \<le> 2 \<and> (1::int) \<le> 1
   \<and> (int 2 - 1) * 2 + 1 \<le> int 3 \<and> (int 2 - 1) * 1 + 1 \<le> int 2
   \<and> buffer_at example_state 0 3 \<and> buffer_at example_state 3 2
   \<and> in_bounds 2 2 3 \<and> in_bounds 1 2 2
   \<and> (\<exists>s'. in_place \<lparr>scale_m = 10\<rparr> 0 2 2 example_state = Inr s')
   \<and> (\<exists>s'. out_of_place \<lparr>scale_m = 10\<rparr> 0 2 3 1 2 example_state = Inr s')"
proof -
  have h1: "(1::int) \<le> 2" and h2: "(1::int) \<le> 1"
    and h3: "(int 2 - 1) * 2 + 1 \<le> int 3" and h4: "(int 2 - 1) * 1 + 1 \<le> int 2"
    by simp_all
  from C10_no_out_of_bounds [OF h1 h2 h3 h4 example_buffers, of "\<lparr>scale_m = 10\<rparr>"]
  have "in_bounds 2 2 3" "in_bounds 1 2 2"
    "\<exists>s'. in_place \<lparr>scale_m = (10::int)\<rparr> 0 2 2 example_state = Inr s'"
    "\<exists>s'. out_of_place \<lparr>scale_m = (10::int)\<rparr> 0 2 3 1 2 example_state = Inr s'"
    by blast+
  with h1 h2 h3 h4 example_buffers show ?thesis by blast
qed

subsection \<open>Dispatch\<close>

lemma exec_result:
  "exec dm scale s =
     (Auto_ptr (length (objs s)),
      s\<lparr>objs := objs s @ [Fft_1024_obj \<lparr>scale_m = scale\<rparr>],
        cout := cout s @ [''examples::Fft_1024 constructor called'']\<rparr>)"
  by (simp add: exec_def Fft_1024_init_def new_obj_def)

lemma generic_exec_result:
  "generic_exec dm scale s =
     (Auto_ptr (length (objs s)), s\<lparr>objs := objs s @ [System_fft_obj (dom_size dm) scale]\<rparr>)"
  by (simp add: generic_exec_def new_obj_def)

lemma candidates_for_fft_type:
  "candidates_for registry (fft_type_sig N) = [user_candidate, generic_candidate]"
  by (simp add: candidates_for_def registry_def user_candidate_def generic_candidate_def
      user_pattern_def fft_type_sig_def)

lemma select_user:
  "rt_valid dm scale \<Longrightarrow>
   select registry (fft_type_sig N) (dm, scale) s = Inr (exec dm scale s)"
  by (simp add: select_def candidates_for_fft_type)
     (simp add: user_candidate_def ct_valid_def)

lemma select_generic:
  "\<not> rt_valid dm scale \<Longrightarrow>
   select registry (fft_type_sig N) (dm, scale) s = Inr (generic_exec dm scale s)"
  by (simp add: select_def candidates_for_fft_type)
     (simp add: user_candidate_def generic_candidate_def ct_valid_def)

text \<open>
  The specialisation is registered for the signatures of \<open>fft_type\<close> and for no
  other: a facade of another call style, direction or element type is served by the
  generic candidate whatever its length.
\<close>

lemma user_pattern_fft_type: "user_pattern sg \<longleftrightarrow> sg = fft_type_sig (op_N sg)"
  by (cases sg) (auto simp: user_pattern_def fft_type_sig_def)

lemma select_not_registered:
  "\<not> user_pattern sg \<Longrightarrow> select registry sg (dm, scale) s = Inr (generic_exec dm scale s)"
  by (simp add: select_def candidates_for_def registry_def)
     (simp add: user_candidate_def generic_candidate_def)

text \<open>
  C2. Constructing the facade \<open>fft_type\<close> for a domain of size 1024 selects the specialised
  candidate: the result is a pointer to a new \<open>Fft_1024\<close> object, and the line of its
  constructor is on the console. Constructing it for a domain of size 2048 finds the
  specialised candidate statically valid but not valid at runtime and selects the
  generic candidate: the result is a pointer to a new system backend, and the
  constructor of \<open>Fft_1024\<close> has not printed.
\<close>

theorem C2_dispatch:
  "(dom_size dm = 1024 \<longrightarrow>
      Fft_create N dm scale s =
        Inr (Auto_ptr (length (objs s)),
             s\<lparr>objs := objs s @ [Fft_1024_obj \<lparr>scale_m = scale\<rparr>],
               cout := cout s @ [''examples::Fft_1024 constructor called'']\<rparr>))
   \<and> (dom_size dm = 2048 \<longrightarrow>
        ct_valid N \<and> \<not> rt_valid dm scale
        \<and> Fft_create N dm scale s =
            Inr (Auto_ptr (length (objs s)),
                 s\<lparr>objs := objs s @ [System_fft_obj 2048 scale]\<rparr>))"
proof (intro conjI impI)
  assume "dom_size dm = 1024"
  then have "rt_valid dm scale" by (simp add: rt_valid_def)
  then show "Fft_create N dm scale s =
        Inr (Auto_ptr (length (objs s)),
             s\<lparr>objs := objs s @ [Fft_1024_obj \<lparr>scale_m = scale\<rparr>],
               cout := cout s @ [''examples::Fft_1024 constructor called'']\<rparr>)"
    by (simp add: Fft_create_def select_user exec_result)
next
  assume "dom_size dm = 2048"
  show "ct_valid N"
    by (simp add: ct_valid_def)
next
  assume "dom_size dm = 2048"
  then show "\<not> rt_valid dm scale"
    by (simp add: rt_valid_def)
next
  assume d: "dom_size dm = 2048"
  then have "\<not> rt_valid dm scale" by (simp add: rt_valid_def)
  with d show "Fft_create N dm scale s =
            Inr (Auto_ptr (length (objs s)),
                 s\<lparr>objs := objs s @ [System_fft_obj 2048 scale]\<rparr>)"
    by (simp add: Fft_create_def select_generic generic_exec_result)
qed

theorem C2_dispatch_witness:
  "dom_size \<lparr>dom_size = 1024\<rparr> = 1024
   \<and> Fft_create 0 \<lparr>dom_size = 1024\<rparr> 1 empty_state =
        Inr (Auto_ptr 0,
             empty_state\<lparr>objs := [Fft_1024_obj \<lparr>scale_m = 1\<rparr>],
               cout := [''examples::Fft_1024 constructor called'']\<rparr>)
   \<and> dom_size \<lparr>dom_size = 2048\<rparr> = 2048
   \<and> Fft_create 0 \<lparr>dom_size = 2048\<rparr> 1 empty_state =
        Inr (Auto_ptr 0, empty_state\<lparr>objs := [System_fft_obj 2048 1]\<rparr>)"
proof -
  have a: "Fft_create 0 \<lparr>dom_size = 1024\<rparr> 1 empty_state =
        Inr (Auto_ptr 0,
             empty_state\<lparr>objs := [Fft_1024_obj \<lparr>scale_m = 1\<rparr>],
               cout := [''examples::Fft_1024 constructor called'']\<rparr>)"
    using C2_dispatch [of "\<lparr>dom_size = 1024\<rparr>" 0 "1::int" empty_state]
    by (simp add: empty_state_def)
  have b: "Fft_create 0 \<lparr>dom_size = 2048\<rparr> 1 empty_state =
        Inr (Auto_ptr 0, empty_state\<lparr>objs := [System_fft_obj 2048 1]\<rparr>)"
    using C2_dispatch [of "\<lparr>dom_size = 2048\<rparr>" 0 "1::int" empty_state]
    by (simp add: empty_state_def)
  from a b show ?thesis by simp
qed

text \<open>
  C7. When the specialised candidate is valid at runtime for the arguments of the caller,
  the dispatch returns what \<open>exec\<close> returns on these same arguments. \<open>exec\<close>
  returns a pointer to an address that held no object before; at this address there is
  now an \<open>Fft_1024\<close> object whose scale factor is the scale argument; the objects that
  existed before are unchanged, and so is the memory of elements.
\<close>

theorem C7_exec:
  assumes "rt_valid dm scale"
  shows "select registry (fft_type_sig N) (dm, scale) s = Inr (exec dm scale s)
     \<and> (\<exists>p s'. exec dm scale s = (Auto_ptr p, s')
           \<and> p = length (objs s)
           \<and> length (objs s') = Suc p
           \<and> objs s' ! p = Fft_1024_obj \<lparr>scale_m = scale\<rparr>
           \<and> (\<forall>q<length (objs s). objs s' ! q = objs s ! q)
           \<and> mem s' = mem s)"
  using assms by (simp add: select_user exec_result nth_append)

theorem C7_exec_witness:
  "rt_valid \<lparr>dom_size = 1024\<rparr> (3::int)
   \<and> select registry (fft_type_sig 0) (\<lparr>dom_size = 1024\<rparr>, 3)
        (empty_state\<lparr>objs := [System_fft_obj 2048 1]\<rparr>)
      = Inr (Auto_ptr 1,
          empty_state\<lparr>objs := [System_fft_obj 2048 1, Fft_1024_obj \<lparr>scale_m = 3\<rparr>],
            cout := [''examples::Fft_1024 constructor called'']\<rparr>)"
proof -
  have h: "rt_valid \<lparr>dom_size = 1024\<rparr> (3::int)" by (simp add: rt_valid_def)
  from C7_exec [OF h, of 0 "empty_state\<lparr>objs := [System_fft_obj 2048 1]\<rparr>"]
  show ?thesis using h by (simp add: exec_result empty_state_def)
qed

end
